theory Spec2Isabelle
  imports Complex_Main "HOL-Library.AList"
begin

section \<open>The knowledge base of \<open>main_4.py\<close>\<close>

text \<open>
  The embedding follows the two engine classes of the source, \<open>KnowledgeBase\<close> and
  \<open>KnowledgeGraph\<close>, and the methods of \<open>ManufacturingExpertSystem\<close> that touch them
  (\<open>setup_manufacturing_knowledge\<close>, \<open>quick_add_indicator\<close>, \<open>add_indicator\<close>,
  \<open>clear_indicators\<close>, \<open>analyze\<close>). Widgets are left out.

  Conventions.
  \<^item> A Python \<open>str\<close> is a \<open>string\<close>, each \<open>char\<close> being one code point below 256
    (the Latin-1 range); \<open>strip\<close> and \<open>lower\<close> are modelled on the whole of that range.
    Text with a code point beyond it has no counterpart in the model.
  \<^item> A confidence is a Python \<open>float\<close>, stored unchecked by \<open>add_rule\<close>. The code only
    stores and compares it (the sort key of \<open>analyze\<close>), so it is a \<open>pyfloat\<close>: a
    real number, one of the two infinities, or NaN, with the comparison \<open><\<close> of floats.
  \<^item> \<open>self.rules\<close> is a \<open>dict\<close> keyed by \<open>len(self.rules)\<close>. Iteration order matters
    (\<open>items()\<close>, \<open>values()\<close>), so it is an association list in insertion order, and
    \<open>d[k] = v\<close> is \<open>AList.update\<close>: replace in place when the key is there, append
    otherwise.
  \<^item> \<open>self.facts\<close> is a \<open>set\<close> of labels, \<open>self.history\<close> a list of log lines.
\<close>

datatype pyfloat = NaN | NegInf | Fin real | PosInf

text \<open>The comparisons \<open>a < b\<close> and \<open>a <= b\<close> of two floats: both are false as soon as one
  side is NaN.\<close>

fun py_lt :: "pyfloat \<Rightarrow> pyfloat \<Rightarrow> bool" where
  "py_lt NaN b = False"
| "py_lt a NaN = False"
| "py_lt NegInf NegInf = False"
| "py_lt NegInf b = True"
| "py_lt (Fin x) NegInf = False"
| "py_lt (Fin x) (Fin y) = (x < y)"
| "py_lt (Fin x) PosInf = True"
| "py_lt PosInf b = False"

definition py_le :: "pyfloat \<Rightarrow> pyfloat \<Rightarrow> bool" where
  "py_le a b = (a \<noteq> NaN \<and> b \<noteq> NaN \<and> (py_lt a b \<or> a = b))"

record rule =
  conditions :: "string list"
  conclusion :: string
  confidence :: pyfloat

record KnowledgeBase =
  rules :: "(nat \<times> rule) list"
  facts :: "string set"
  history :: "string list"

text \<open>The dictionaries appended by \<open>evaluate_rules\<close>; their keys \<open>conclusion\<close> and
  \<open>confidence\<close> carry a prefix because the rule record already owns those names.\<close>

record result =
  res_conclusion :: string
  res_confidence :: pyfloat
  rule_id :: nat

text \<open>\<open>KnowledgeBase.__init__\<close>\<close>

definition init :: KnowledgeBase where
  "init = \<lparr>rules = [], facts = {}, history = []\<rparr>"

text \<open>\<open>KnowledgeBase.add_rule\<close>: no check of any argument, no return value.\<close>

definition add_rule :: "string list \<Rightarrow> string \<Rightarrow> pyfloat \<Rightarrow> KnowledgeBase \<Rightarrow> KnowledgeBase" where
  "add_rule conds concl conf self =
     (let rid = length (rules self)
      in self\<lparr>rules := AList.update rid
                 \<lparr>conditions = conds, conclusion = concl, confidence = conf\<rparr> (rules self)\<rparr>)"

text \<open>\<open>KnowledgeBase.add_fact\<close>: the label goes in as given, and the call is logged
  (the parameter \<open>fact\<close> is called \<open>label\<close> here, \<open>fact\<close> being the factorial of HOL).\<close>

definition add_fact :: "string \<Rightarrow> KnowledgeBase \<Rightarrow> KnowledgeBase" where
  "add_fact label self =
     self\<lparr>facts := insert label (facts self),
          history := history self @ [''Added indicator: '' @ label]\<rparr>"

text \<open>\<open>KnowledgeBase.evaluate_rules\<close>. The test
  \<open>all(cond in self.facts for cond in rule['conditions'])\<close> reads the fact set of the
  object at each iteration, so the loop carries the object along with the list
  \<open>conclusions\<close> and hands both back.\<close>

definition fires :: "KnowledgeBase \<Rightarrow> rule \<Rightarrow> bool" where
  "fires self r = list_all (\<lambda>cond. cond \<in> facts self) (conditions r)"

definition mk_result :: "nat \<times> rule \<Rightarrow> result" where
  "mk_result item =
     \<lparr>res_conclusion = conclusion (snd item),
      res_confidence = confidence (snd item),
      rule_id = fst item\<rparr>"

fun evaluate_loop ::
  "(nat \<times> rule) list \<Rightarrow> KnowledgeBase \<Rightarrow> result list \<Rightarrow> result list \<times> KnowledgeBase" where
  "evaluate_loop [] self conclusions = (conclusions, self)"
| "evaluate_loop (item # items) self conclusions =
     (if fires self (snd item)
      then evaluate_loop items self (conclusions @ [mk_result item])
      else evaluate_loop items self conclusions)"

definition evaluate_rules :: "KnowledgeBase \<Rightarrow> result list \<times> KnowledgeBase" where
  "evaluate_rules self = evaluate_loop (rules self) self []"


subsection \<open>The handlers of \<open>ManufacturingExpertSystem\<close>\<close>

text \<open>\<open>str.strip()\<close> and \<open>str.lower()\<close> on code points below 256. The whitespace of
  \<open>strip\<close> is what \<open>str.isspace\<close> accepts there: tab, line feed, vertical tab, form
  feed, carriage return, the four separators 28 to 31, the space, the next-line control
  U+0085 and the no-break space U+00A0. The code points that \<open>lower\<close> changes there are
  \<open>A\<close> to \<open>Z\<close> and the accented capitals U+00C0 to U+00DE without the multiplication
  sign U+00D7; each goes to the code point 32 above it.\<close>

definition is_space :: "char \<Rightarrow> bool" where
  "is_space c = (of_char c \<in> {9, 10, 11, 12, 13, 28, 29, 30, 31, 32, 133, 160 :: nat})"

definition is_upper :: "char \<Rightarrow> bool" where
  "is_upper c =
     (let n = of_char c :: nat
      in (65 \<le> n \<and> n \<le> 90) \<or> (192 \<le> n \<and> n \<le> 222 \<and> n \<noteq> 215))"

definition strip :: "string \<Rightarrow> string" where
  "strip s = rev (dropWhile is_space (rev (dropWhile is_space s)))"

definition lower_char :: "char \<Rightarrow> char" where
  "lower_char c = (if is_upper c then char_of (of_char c + (32 :: nat)) else c)"

definition lower :: "string \<Rightarrow> string" where
  "lower s = map lower_char s"

text \<open>\<open>quick_add_indicator\<close>: the button's label goes to \<open>add_fact\<close> unchanged.\<close>

definition quick_add_indicator :: "string \<Rightarrow> KnowledgeBase \<Rightarrow> KnowledgeBase" where
  "quick_add_indicator indicator kb = add_fact indicator kb"

text \<open>\<open>add_indicator\<close>: \<open>plain_text\<close> is what \<open>self.indicator_input.toPlainText()\<close> returns.\<close>

definition add_indicator :: "string \<Rightarrow> KnowledgeBase \<Rightarrow> KnowledgeBase" where
  "add_indicator plain_text kb =
     (let indicator = lower (strip plain_text)
      in if indicator \<noteq> [] then add_fact indicator kb else kb)"

text \<open>\<open>clear_indicators\<close>\<close>

definition clear_indicators :: "KnowledgeBase \<Rightarrow> KnowledgeBase" where
  "clear_indicators kb =
     kb\<lparr>facts := {}, history := history kb @ [''Cleared all indicators'']\<rparr>"

text \<open>\<open>list.sort(key=f, reverse=True)\<close>. The sort compares keys with \<open><\<close> only and is
  stable; CPython keeps it stable under \<open>reverse=True\<close> by reversing the list, sorting
  it in ascending order and reversing the outcome. The ascending sort is written as a
  stable insertion sort on \<open>py_lt\<close>. With a NaN among the keys \<open><\<close> is no longer an order,
  and the arrangement \<open>list.sort\<close> then leaves depends on the runs and merges of its
  algorithm (it raises nothing, and the list need not be descending). That arrangement
  is the parameter \<open>nan_order\<close>, of which nothing is assumed.\<close>

fun insort_lt :: "('a \<Rightarrow> pyfloat) \<Rightarrow> 'a \<Rightarrow> 'a list \<Rightarrow> 'a list" where
  "insort_lt f x [] = [x]"
| "insort_lt f x (y # ys) =
     (if py_lt (f y) (f x) then y # insort_lt f x ys else x # y # ys)"

definition sort_lt :: "('a \<Rightarrow> pyfloat) \<Rightarrow> 'a list \<Rightarrow> 'a list" where
  "sort_lt f xs = foldr (insort_lt f) xs []"

definition py_sort_reverse ::
  "(('a \<Rightarrow> pyfloat) \<Rightarrow> 'a list \<Rightarrow> 'a list) \<Rightarrow> ('a \<Rightarrow> pyfloat) \<Rightarrow> 'a list \<Rightarrow> 'a list" where
  "py_sort_reverse nan_order f xs =
     (if list_ex (\<lambda>x. f x = NaN) xs then nan_order f xs else rev (sort_lt f (rev xs)))"

text \<open>\<open>analyze\<close>, up to the list it goes on to display: the conclusions of
  \<open>evaluate_rules\<close>, sorted on \<open>confidence\<close> when there are any. The text built from the
  list (it formats \<open>confidence * 100\<close> as a float) and its entry in the history are not
  modelled.\<close>

definition analyze ::
  "((result \<Rightarrow> pyfloat) \<Rightarrow> result list \<Rightarrow> result list) \<Rightarrow> KnowledgeBase \<Rightarrow> result list" where
  "analyze nan_order kb =
     (let conclusions = fst (evaluate_rules kb)
      in if conclusions \<noteq> [] then py_sort_reverse nan_order res_confidence conclusions
         else conclusions)"

subsection \<open>\<open>KnowledgeGraph\<close>\<close>

text \<open>\<open>networkx.DiGraph\<close>, as far as the source uses it: a set of nodes and a set of
  directed edges without multiplicity; \<open>add_edge(u, v)\<close> adds both end points to the nodes
  and the pair to the edges.\<close>

record DiGraph =
  nodes :: "string set"
  edges :: "(string \<times> string) set"

definition empty_graph :: DiGraph where
  "empty_graph = \<lparr>nodes = {}, edges = {}\<rparr>"

definition add_edge :: "string \<Rightarrow> string \<Rightarrow> DiGraph \<Rightarrow> DiGraph" where
  "add_edge u v g = g\<lparr>nodes := insert v (insert u (nodes g)), edges := insert (u, v) (edges g)\<rparr>"

text \<open>\<open>KnowledgeGraph.add_rule_to_graph\<close>\<close>

definition add_rule_to_graph :: "string list \<Rightarrow> string \<Rightarrow> DiGraph \<Rightarrow> DiGraph" where
  "add_rule_to_graph conds concl g = fold (\<lambda>condition. add_edge condition concl) conds g"

text \<open>The last loop of \<open>setup_manufacturing_knowledge\<close>:
  \<open>for rule in self.kb.rules.values(): self.kg.add_rule_to_graph(...)\<close>.\<close>

definition rules_to_graph :: "KnowledgeBase \<Rightarrow> DiGraph \<Rightarrow> DiGraph" where
  "rules_to_graph kb g =
     fold (\<lambda>item. add_rule_to_graph (conditions (snd item)) (conclusion (snd item))) (rules kb) g"

text \<open>The calls of \<open>add_rule\<close> in \<open>setup_manufacturing_knowledge\<close>, in their order.\<close>

definition catalog :: "(string list \<times> string \<times> pyfloat) list" where
  "catalog =
    [([''dimensional_variation'', ''tool_wear''], ''possible_tooling_problem'', Fin 0.7),
     ([''dimensional_variation'', ''tool_wear'', ''vibration''], ''severe_tooling_issue'', Fin 0.9),
     ([''surface_defects'', ''irregular_finish''], ''quality_control_issue'', Fin 0.8),
     ([''unusual_noise'', ''vibration''], ''mechanical_problem'', Fin 0.75),
     ([''unusual_noise'', ''vibration'', ''overheating''], ''serious_mechanical_issue'', Fin 0.9),
     ([''power_fluctuation'', ''system_trips''], ''electrical_problem'', Fin 0.85),
     ([''temperature_variation'', ''pressure_fluctuation''], ''process_control_issue'', Fin 0.7),
     ([''temperature_variation'', ''pressure_fluctuation'', ''flow_rate_unstable''],
        ''severe_process_control'', Fin 0.9),
     ([''feed_rate_unstable'', ''material_buildup''], ''material_handling_problem'', Fin 0.8),
     ([''feed_rate_unstable'', ''material_buildup'', ''jamming''],
        ''severe_material_handling'', Fin 0.95),
     ([''cycle_time_increase'', ''output_decrease''], ''efficiency_problem'', Fin 0.75),
     ([''cycle_time_increase'', ''output_decrease'', ''high_reject_rate''],
        ''serious_efficiency_issue'', Fin 0.9)]"

definition add_rules :: "(string list \<times> string \<times> pyfloat) list \<Rightarrow> KnowledgeBase \<Rightarrow> KnowledgeBase" where
  "add_rules cat kb = fold (\<lambda>(conds, concl, conf). add_rule conds concl conf) cat kb"

definition setup_manufacturing_knowledge :: "KnowledgeBase \<times> DiGraph" where
  "setup_manufacturing_knowledge =
     (let kb = add_rules catalog init in (kb, rules_to_graph kb empty_graph))"

subsection \<open>Concrete knowledge bases\<close>

text \<open>The first two rules of the catalogue on a fresh knowledge base, and the same with
  all three of their indicators observed.\<close>

definition tooling_kb :: KnowledgeBase where
  "tooling_kb = add_rules (take 2 catalog) init"

definition tooling_kb_observed :: KnowledgeBase where
  "tooling_kb_observed =
     add_fact ''vibration'' (add_fact ''tool_wear'' (add_fact ''dimensional_variation'' tooling_kb))"

text \<open>A rule that has no condition at all, registered on a fresh knowledge base with a
  confidence outside of the interval from 0 to 1.\<close>

definition unconditional_kb :: KnowledgeBase where
  "unconditional_kb = add_rule [] ''always'' (Fin 5) init"

text \<open>The invariant of \<open>self.rules\<close> under \<open>add_rule\<close>: the keys are \<open>0, 1, ..., n - 1\<close> in
  insertion order.\<close>

definition sequential_ids :: "KnowledgeBase \<Rightarrow> bool" where
  "sequential_ids kb = (map fst (rules kb) = [0..<length (rules kb)])"

section \<open>Properties of the evaluation loop\<close>

lemma evaluate_loop_eq:
  "evaluate_loop items self acc =
     (acc @ map mk_result (filter (\<lambda>item. fires self (snd item)) items), self)"
  by (induction items arbitrary: acc) simp_all

lemma evaluate_rules_eq:
  "fst (evaluate_rules self) =
     map mk_result (filter (\<lambda>item. fires self (snd item)) (rules self))"
  by (simp add: evaluate_rules_def evaluate_loop_eq)

lemma fires_iff: "fires self r \<longleftrightarrow> set (conditions r) \<subseteq> facts self"
  by (auto simp: fires_def list_all_iff)

lemma mk_result_in_iff:
  assumes "distinct (map fst items)" and "(i, r) \<in> set items"
  shows "mk_result (i, r) \<in> mk_result ` {item \<in> set items. P (snd item)} \<longleftrightarrow> P r"
proof
  assume "mk_result (i, r) \<in> mk_result ` {item \<in> set items. P (snd item)}"
  then obtain j q where jq: "(j, q) \<in> set items" "P q" "mk_result (i, r) = mk_result (j, q)"
    by auto
  from jq(3) have "i = j"
    by (simp add: mk_result_def)
  with assms jq(1) have "r = q"
    by (metis eq_key_imp_eq_value)
  with jq(2) show "P r" by simp
next
  assume "P r"
  with assms(2) show "mk_result (i, r) \<in> mk_result ` {item \<in> set items. P (snd item)}"
    by force
qed

section \<open>Auxiliary facts\<close>

lemma evaluate_rules_set:
  "set (fst (evaluate_rules self)) = mk_result ` {item \<in> set (rules self). fires self (snd item)}"
  by (simp add: evaluate_rules_eq)

lemma evaluate_rules_member:
  assumes "distinct (map fst (rules self))" and "(i, r) \<in> set (rules self)"
  shows "mk_result (i, r) \<in> set (fst (evaluate_rules self)) \<longleftrightarrow> fires self r"
  unfolding evaluate_rules_set using assms by (rule mk_result_in_iff)

lemma evaluate_loop_state: "snd (evaluate_loop items self acc) = self"
  by (simp add: evaluate_loop_eq)

lemma rules_add_fact: "rules (add_fact f kb) = rules kb"
  by (simp add: add_fact_def)

lemma facts_add_fact: "facts (add_fact f kb) = insert f (facts kb)"
  by (simp add: add_fact_def)

lemma history_add_fact: "history (add_fact f kb) = history kb @ [''Added indicator: '' @ f]"
  by (simp add: add_fact_def)

lemma update_fresh: "k \<notin> fst ` set al \<Longrightarrow> AList.update k v al = al @ [(k, v)]"
  by (induction al) auto

lemma update_member: "(k, v) \<in> set (AList.update k v al)"
  by (induction al) auto

lemma sequential_ids_fresh:
  assumes "sequential_ids kb"
  shows "length (rules kb) \<notin> fst ` set (rules kb)"
proof -
  have "fst ` set (rules kb) = set (map fst (rules kb))" by simp
  also have "\<dots> = {0..<length (rules kb)}"
    using assms by (simp add: sequential_ids_def)
  finally show ?thesis by simp
qed

lemma rules_add_rule:
  assumes "sequential_ids kb"
  shows "rules (add_rule conds concl conf kb) =
     rules kb @ [(length (rules kb), \<lparr>conditions = conds, conclusion = concl, confidence = conf\<rparr>)]"
  using sequential_ids_fresh[OF assms] by (simp add: add_rule_def update_fresh)

lemma sequential_ids_add_rule:
  assumes "sequential_ids kb"
  shows "sequential_ids (add_rule conds concl conf kb)"
  using assms unfolding sequential_ids_def rules_add_rule[OF assms] by simp

lemma strip_Nil_iff: "strip s = [] \<longleftrightarrow> list_all is_space s"
proof
  assume "strip s = []"
  then have d: "\<forall>x\<in>set (dropWhile is_space s). is_space x"
    by (simp add: strip_def)
  have "dropWhile is_space s = []"
  proof (rule ccontr)
    assume ne: "dropWhile is_space s \<noteq> []"
    then have "\<not> is_space (hd (dropWhile is_space s))"
      by (rule hd_dropWhile)
    moreover from ne have "hd (dropWhile is_space s) \<in> set (dropWhile is_space s)"
      by (rule hd_in_set)
    ultimately show False using d by blast
  qed
  then show "list_all is_space s"
    by (simp add: list_all_iff)
next
  assume "list_all is_space s"
  then have "dropWhile is_space s = []"
    by (simp add: list_all_iff)
  then show "strip s = []"
    unfolding strip_def by (auto dest: set_dropWhileD)
qed

lemma strip_ends:
  assumes "strip s \<noteq> []"
  shows "\<not> is_space (hd (strip s))" and "\<not> is_space (last (strip s))"
proof -
  let ?d = "dropWhile is_space s"
  let ?e = "dropWhile is_space (rev ?d)"
  from assms have e: "?e \<noteq> []" by (simp add: strip_def)
  have d: "?d \<noteq> []"
  proof
    assume a: "?d = []"
    have "?e = []" unfolding a by simp
    with e show False by contradiction
  qed
  have "last (strip s) = hd ?e"
    using e by (simp add: strip_def last_rev)
  with e show "\<not> is_space (last (strip s))"
    by (simp add: hd_dropWhile)
  have "rev ?d = takeWhile is_space (rev ?d) @ ?e" by simp
  then have "last (rev ?d) = last ?e"
    using e by (metis last_appendR)
  then have "hd (strip s) = hd ?d"
    using e d by (simp add: strip_def hd_rev last_rev)
  with d show "\<not> is_space (hd (strip s))"
    by (simp add: hd_dropWhile)
qed

lemma of_char_lower_char:
  assumes "is_upper c"
  shows "of_char (lower_char c) = of_char c + (32 :: nat)"
proof -
  from assms have "of_char c + (32 :: nat) < 256"
    by (auto simp: is_upper_def Let_def)
  with assms show ?thesis
    by (simp add: lower_char_def)
qed

lemma is_space_lower_char: "is_space (lower_char c) = is_space c"
proof (cases "is_upper c")
  case True
  then have "\<not> is_space c"
    by (auto simp: is_space_def is_upper_def Let_def)
  moreover from True have "\<not> is_space (lower_char c)"
    unfolding is_space_def of_char_lower_char [OF True]
    by (auto simp: is_upper_def Let_def)
  ultimately show ?thesis by simp
next
  case False
  then show ?thesis by (simp add: lower_char_def)
qed

lemma not_upper_lower_char: "\<not> is_upper (lower_char c)"
proof (cases "is_upper c")
  case True
  have "\<not> (let n = of_char c + (32 :: nat)
       in (65 \<le> n \<and> n \<le> 90) \<or> (192 \<le> n \<and> n \<le> 222 \<and> n \<noteq> 215))"
    using True by (auto simp: is_upper_def Let_def)
  then show ?thesis
    unfolding is_upper_def [of "lower_char c"] of_char_lower_char [OF True] .
next
  case False
  then show ?thesis by (simp add: lower_char_def)
qed

lemma lower_Nil_iff: "lower s = [] \<longleftrightarrow> s = []"
  by (simp add: lower_def)

lemma py_lt_irrefl: "\<not> py_lt a a"
  by (cases a) simp_all

lemma py_lt_asym: "py_lt a b \<Longrightarrow> \<not> py_lt b a"
  by (cases a; cases b) simp_all

lemma py_not_lt_trans:
  "a \<noteq> NaN \<Longrightarrow> b \<noteq> NaN \<Longrightarrow> c \<noteq> NaN \<Longrightarrow> \<not> py_lt b a \<Longrightarrow> \<not> py_lt c b \<Longrightarrow> \<not> py_lt c a"
  by (cases a; cases b; cases c) simp_all

lemma py_le_iff_not_lt: "a \<noteq> NaN \<Longrightarrow> b \<noteq> NaN \<Longrightarrow> py_le a b \<longleftrightarrow> \<not> py_lt b a"
  by (cases a; cases b) (auto simp: py_le_def)

lemma set_insort_lt: "set (insort_lt f x ys) = insert x (set ys)"
  by (induction ys) auto

lemma length_insort_lt: "length (insort_lt f x ys) = Suc (length ys)"
  by (induction ys) auto

lemma set_sort_lt: "set (sort_lt f xs) = set xs"
  by (induction xs) (simp_all add: sort_lt_def set_insort_lt)

lemma length_sort_lt: "length (sort_lt f xs) = length xs"
  by (induction xs) (simp_all add: sort_lt_def length_insort_lt)

lemma sorted_insort_lt:
  assumes "sorted_wrt (\<lambda>a b. \<not> py_lt (f b) (f a)) ys"
    and "f x \<noteq> NaN" and "\<forall>y\<in>set ys. f y \<noteq> NaN"
  shows "sorted_wrt (\<lambda>a b. \<not> py_lt (f b) (f a)) (insort_lt f x ys)"
  using assms
proof (induction ys)
  case Nil
  then show ?case by simp
next
  case (Cons y ys)
  show ?case
  proof (cases "py_lt (f y) (f x)")
    case True
    have "sorted_wrt (\<lambda>a b. \<not> py_lt (f b) (f a)) (insort_lt f x ys)"
      using Cons by simp
    moreover have "\<forall>z\<in>set (insort_lt f x ys). \<not> py_lt (f z) (f y)"
      using Cons.prems(1) True by (auto simp: set_insort_lt dest: py_lt_asym)
    ultimately show ?thesis
      using True by simp
  next
    case False
    have "\<not> py_lt (f z) (f x)" if "z \<in> set ys" for z
    proof -
      from that Cons.prems(1) have "\<not> py_lt (f z) (f y)" by simp
      with False show ?thesis
        using py_not_lt_trans [of "f x" "f y" "f z"] Cons.prems(2,3) that by simp
    qed
    then show ?thesis
      using False Cons.prems(1) by simp
  qed
qed

lemma sorted_sort_lt:
  "\<forall>x\<in>set xs. f x \<noteq> NaN \<Longrightarrow> sorted_wrt (\<lambda>a b. \<not> py_lt (f b) (f a)) (sort_lt f xs)"
proof (induction xs)
  case Nil
  then show ?case by (simp add: sort_lt_def)
next
  case (Cons x xs)
  then have "sorted_wrt (\<lambda>a b. \<not> py_lt (f b) (f a)) (insort_lt f x (sort_lt f xs))"
    by (intro sorted_insort_lt) (simp_all add: set_sort_lt)
  then show ?case by (simp add: sort_lt_def)
qed

lemma filter_insort_lt:
  "filter (\<lambda>y. f y = k) (insort_lt f x ys) =
     (if f x = k then x # filter (\<lambda>y. f y = k) ys else filter (\<lambda>y. f y = k) ys)"
  by (induction ys) (auto simp: py_lt_irrefl)

lemma filter_sort_lt: "filter (\<lambda>y. f y = k) (sort_lt f xs) = filter (\<lambda>y. f y = k) xs"
  by (induction xs) (simp_all add: sort_lt_def filter_insort_lt)

lemma py_sort_reverse_no_nan:
  assumes "\<forall>x\<in>set xs. f x \<noteq> NaN"
  shows "py_sort_reverse nan_order f xs = rev (sort_lt f (rev xs))"
  using assms by (simp add: py_sort_reverse_def list_ex_iff)

lemma sorted_rev_sort_lt:
  assumes "\<forall>x\<in>set xs. f x \<noteq> NaN"
  shows "sorted_wrt (\<lambda>a b. py_le (f b) (f a)) (rev (sort_lt f (rev xs)))"
proof -
  let ?ys = "rev (sort_lt f (rev xs))"
  have "sorted_wrt (\<lambda>a b. \<not> py_lt (f b) (f a)) (sort_lt f (rev xs))"
    using assms by (intro sorted_sort_lt) simp
  then have s: "sorted_wrt (\<lambda>a b. \<not> py_lt (f a) (f b)) ?ys"
    by (simp add: sorted_wrt_rev)
  have "py_le (f b) (f a)" if "a \<in> set ?ys" "b \<in> set ?ys" "\<not> py_lt (f a) (f b)" for a b
    using that assms by (simp add: set_sort_lt py_le_iff_not_lt)
  then show ?thesis
    using s by (rule sorted_wrt_mono_rel)
qed

lemma stable_rev_sort_lt:
  "filter (\<lambda>x. f x = k) (rev (sort_lt f (rev xs))) = filter (\<lambda>x. f x = k) xs"
  by (simp add: rev_filter[symmetric] filter_sort_lt)

lemma add_rule_to_graph_edges:
  "edges (add_rule_to_graph conds concl g) = edges g \<union> (\<lambda>c. (c, concl)) ` set conds"
  unfolding add_rule_to_graph_def
  by (induction conds arbitrary: g) (auto simp: add_edge_def)

lemma add_rule_to_graph_nodes:
  "nodes (add_rule_to_graph conds concl g) =
     nodes g \<union> set conds \<union> (if conds = [] then {} else {concl})"
  unfolding add_rule_to_graph_def
  by (induction conds arbitrary: g) (auto simp: add_edge_def)

lemma fold_graph_edges:
  "edges (fold (\<lambda>item. add_rule_to_graph (conditions (snd item)) (conclusion (snd item))) items g) =
     edges g \<union> (\<Union>item\<in>set items. (\<lambda>c. (c, conclusion (snd item))) ` set (conditions (snd item)))"
  by (induction items arbitrary: g) (auto simp: add_rule_to_graph_edges)

lemma fold_graph_nodes:
  "nodes (fold (\<lambda>item. add_rule_to_graph (conditions (snd item)) (conclusion (snd item))) items g) =
     nodes g \<union> (\<Union>item\<in>set items. set (conditions (snd item)) \<union>
        (if conditions (snd item) = [] then {} else {conclusion (snd item)}))"
  by (induction items arbitrary: g) (auto simp: add_rule_to_graph_nodes)

lemmas kb_defs = tooling_kb_observed_def tooling_kb_def add_rules_def catalog_def add_rule_def init_def add_fact_def evaluate_rules_def fires_def mk_result_def unconditional_kb_def clear_indicators_def

section \<open>Claims\<close>

text \<open>C1. For a rule \<open>r\<close> registered under the id \<open>i\<close> (the keys of the dictionary being
  distinct), \<open>evaluate_rules\<close> returns the record of \<open>r\<close> if and only if every condition of
  \<open>r\<close> is among the facts; adding a fact that is not a condition of \<open>r\<close> does not change
  whether that record is returned. Nothing but \<open>r\<close> and the fact set enters the test, so
  each rule is judged on its own.\<close>

theorem evaluate_rules_fires_iff_subset:
  assumes "distinct (map fst (rules kb))" and "(i, r) \<in> set (rules kb)"
  shows "(mk_result (i, r) \<in> set (fst (evaluate_rules kb)) \<longleftrightarrow> set (conditions r) \<subseteq> facts kb)
     \<and> (\<forall>f. f \<notin> set (conditions r) \<longrightarrow>
           (mk_result (i, r) \<in> set (fst (evaluate_rules (add_fact f kb)))
              \<longleftrightarrow> mk_result (i, r) \<in> set (fst (evaluate_rules kb))))"
proof (intro conjI allI impI)
  show now: "mk_result (i, r) \<in> set (fst (evaluate_rules kb)) \<longleftrightarrow> set (conditions r) \<subseteq> facts kb"
    using assms by (simp add: evaluate_rules_member fires_iff)
  fix f assume f: "f \<notin> set (conditions r)"
  have "mk_result (i, r) \<in> set (fst (evaluate_rules (add_fact f kb)))
      \<longleftrightarrow> set (conditions r) \<subseteq> insert f (facts kb)"
    using assms by (simp add: evaluate_rules_member rules_add_fact fires_iff facts_add_fact)
  also have "\<dots> \<longleftrightarrow> set (conditions r) \<subseteq> facts kb"
    using f by auto
  finally show "mk_result (i, r) \<in> set (fst (evaluate_rules (add_fact f kb)))
      \<longleftrightarrow> mk_result (i, r) \<in> set (fst (evaluate_rules kb))"
    using now by simp
qed

theorem evaluate_rules_fires_iff_subset_witness:
  "mk_result (0, \<lparr>conditions = [''dimensional_variation'', ''tool_wear''],
        conclusion = ''possible_tooling_problem'', confidence = Fin 0.7\<rparr>)
     \<in> set (fst (evaluate_rules tooling_kb_observed))
   \<and> mk_result (1, \<lparr>conditions = [''dimensional_variation'', ''tool_wear'', ''vibration''],
        conclusion = ''severe_tooling_issue'', confidence = Fin 0.9\<rparr>)
     \<notin> set (fst (evaluate_rules (add_fact ''overheating''
           (add_fact ''tool_wear'' (add_fact ''dimensional_variation'' tooling_kb)))))"
  using evaluate_rules_fires_iff_subset [of tooling_kb_observed 0
      "\<lparr>conditions = [''dimensional_variation'', ''tool_wear''],
        conclusion = ''possible_tooling_problem'', confidence = Fin 0.7\<rparr>"]
    evaluate_rules_fires_iff_subset [of
      "add_fact ''tool_wear'' (add_fact ''dimensional_variation'' tooling_kb)" 1
      "\<lparr>conditions = [''dimensional_variation'', ''tool_wear'', ''vibration''],
        conclusion = ''severe_tooling_issue'', confidence = Fin 0.9\<rparr>"]
  by (simp add: tooling_kb_observed_def tooling_kb_def add_rules_def catalog_def add_rule_def
      init_def add_fact_def)

text \<open>C2. \<open>evaluate_rules\<close> does not sort: with the first two rules of the catalogue
  firing, it returns the rule of confidence 0.7 before the rule of confidence 0.9.\<close>

theorem evaluate_rules_unsorted_counterexample:
  "\<not> sorted_wrt (\<lambda>a b. py_le (res_confidence b) (res_confidence a))
       (fst (evaluate_rules tooling_kb_observed))"
  by (simp add: kb_defs py_le_def)

text \<open>C2, as amended. \<open>evaluate_rules\<close> returns the records of the firing rules in
  registration order. When no firing rule has the confidence NaN, the list that \<open>analyze\<close>
  displays holds the same records, sorted by confidence in descending order, and the sort
  is stable: the records of any one confidence \<open>c\<close> keep the order in which
  \<open>evaluate_rules\<close> returned them.\<close>

theorem analyze_sorted_stable:
  assumes "\<forall>item\<in>set (rules kb). fires kb (snd item) \<longrightarrow> confidence (snd item) \<noteq> NaN"
  shows "fst (evaluate_rules kb) = map mk_result (filter (\<lambda>item. fires kb (snd item)) (rules kb))
   \<and> sorted_wrt (\<lambda>a b. py_le (res_confidence b) (res_confidence a)) (analyze nan_order kb)
   \<and> set (analyze nan_order kb) = set (fst (evaluate_rules kb))
   \<and> length (analyze nan_order kb) = length (fst (evaluate_rules kb))
   \<and> filter (\<lambda>x. res_confidence x = c) (analyze nan_order kb)
       = filter (\<lambda>x. res_confidence x = c) (fst (evaluate_rules kb))"
proof -
  let ?cs = "fst (evaluate_rules kb)"
  let ?ys = "rev (sort_lt res_confidence (rev ?cs))"
  have n: "\<forall>x\<in>set ?cs. res_confidence x \<noteq> NaN"
    using assms by (auto simp: evaluate_rules_set mk_result_def)
  have "py_sort_reverse nan_order res_confidence ?cs = ?ys"
    using n by (rule py_sort_reverse_no_nan)
  moreover have "?cs = [] \<Longrightarrow> ?ys = ?cs"
    by (simp add: sort_lt_def)
  ultimately have a: "analyze nan_order kb = ?ys"
    by (cases "?cs = []") (simp_all add: analyze_def)
  have s: "sorted_wrt (\<lambda>a b. py_le (res_confidence b) (res_confidence a)) ?ys"
    using n by (rule sorted_rev_sort_lt)
  have e: "set ?ys = set ?cs"
    by (simp add: set_sort_lt)
  have l: "length ?ys = length ?cs"
    by (simp add: length_sort_lt)
  have f: "filter (\<lambda>x. res_confidence x = c) ?ys = filter (\<lambda>x. res_confidence x = c) ?cs"
    by (rule stable_rev_sort_lt)
  from s e l f show ?thesis
    unfolding a using evaluate_rules_eq [of kb] by blast
qed

theorem analyze_sorted_stable_witness:
  "analyze (\<lambda>f xs. xs) tooling_kb_observed =
    [\<lparr>res_conclusion = ''severe_tooling_issue'', res_confidence = Fin 0.9, rule_id = 1\<rparr>,
     \<lparr>res_conclusion = ''possible_tooling_problem'', res_confidence = Fin 0.7, rule_id = 0\<rparr>]
   \<and> sorted_wrt (\<lambda>a b. py_le (res_confidence b) (res_confidence a))
        (analyze (\<lambda>f xs. xs) tooling_kb_observed)"
proof -
  have h: "\<forall>item\<in>set (rules tooling_kb_observed).
      fires tooling_kb_observed (snd item) \<longrightarrow> confidence (snd item) \<noteq> NaN"
    by (simp add: kb_defs)
  have e: "fst (evaluate_rules tooling_kb_observed) =
    [\<lparr>res_conclusion = ''possible_tooling_problem'', res_confidence = Fin 0.7, rule_id = 0\<rparr>,
     \<lparr>res_conclusion = ''severe_tooling_issue'', res_confidence = Fin 0.9, rule_id = 1\<rparr>]"
    by (simp add: kb_defs)
  have a: "analyze (\<lambda>f xs. xs) tooling_kb_observed =
    [\<lparr>res_conclusion = ''severe_tooling_issue'', res_confidence = Fin 0.9, rule_id = 1\<rparr>,
     \<lparr>res_conclusion = ''possible_tooling_problem'', res_confidence = Fin 0.7, rule_id = 0\<rparr>]"
    by (simp add: analyze_def e py_sort_reverse_def sort_lt_def)
  from analyze_sorted_stable [OF h, of "\<lambda>f xs. xs" "Fin 0.9"]
  have "sorted_wrt (\<lambda>a b. py_le (res_confidence b) (res_confidence a))
        (analyze (\<lambda>f xs. xs) tooling_kb_observed)"
    by blast
  with a show ?thesis
    by blast
qed

text \<open>C3. \<open>add_rule\<close> with no condition and the confidence 5 does not fail: the rule
  is stored under the id 0.\<close>

theorem add_rule_invalid_counterexample:
  "rules (add_rule [] ''always'' (Fin 5) init)
     = [(0, \<lparr>conditions = [], conclusion = ''always'', confidence = Fin 5\<rparr>)]
   \<and> rules (add_rule [] ''always'' (Fin 5) init) \<noteq> rules init
   \<and> \<not> (0 < (5::real) \<and> (5::real) \<le> 1)"
  by (simp add: add_rule_def init_def)

text \<open>C3, as amended. \<open>add_rule\<close> never fails: for any list of conditions and any
  confidence it appends the rule under the next id, which is the number of rules
  registered so far, and leaves the rules before it, the facts and the history as they
  were.\<close>

theorem add_rule_always_registers:
  assumes "sequential_ids kb"
  shows "rules (add_rule conds concl conf kb) =
       rules kb @ [(length (rules kb),
                    \<lparr>conditions = conds, conclusion = concl, confidence = conf\<rparr>)]
     \<and> facts (add_rule conds concl conf kb) = facts kb
     \<and> history (add_rule conds concl conf kb) = history kb
     \<and> sequential_ids (add_rule conds concl conf kb)"
  using rules_add_rule[OF assms] sequential_ids_add_rule[OF assms]
  by (simp add: add_rule_def)

theorem add_rule_always_registers_witness:
  "sequential_ids tooling_kb
   \<and> rules (add_rule [] ''always'' (Fin (-1)) tooling_kb) =
       rules tooling_kb @ [(2, \<lparr>conditions = [], conclusion = ''always'', confidence = Fin (-1)\<rparr>)]"
proof -
  have s: "sequential_ids tooling_kb"
    by (simp add: sequential_ids_def tooling_kb_def add_rules_def catalog_def add_rule_def
        init_def upt_rec)
  have l: "length (rules tooling_kb) = 2"
    by (simp add: tooling_kb_def add_rules_def catalog_def add_rule_def init_def)
  show ?thesis
    using s l add_rule_always_registers [OF s, of "[]" "''always''" "Fin (-1)"] by simp
qed

text \<open>C4. With a rule that has no condition registered, \<open>evaluate_rules\<close> after
  \<open>clear_indicators\<close> still returns the record of that rule.\<close>

theorem evaluate_after_clear_counterexample:
  "fst (evaluate_rules (clear_indicators (add_fact ''vibration'' unconditional_kb)))
     = [\<lparr>res_conclusion = ''always'', res_confidence = Fin 5, rule_id = 0\<rparr>]
   \<and> fst (evaluate_rules (clear_indicators (add_fact ''vibration'' unconditional_kb))) \<noteq> []"
  by (simp add: kb_defs)

text \<open>C4, as amended. On an empty fact set, be it that of a knowledge base on which no
  fact was added yet or the one left by \<open>clear_indicators\<close>, \<open>evaluate_rules\<close> returns, in
  registration order, the records of exactly the rules whose list of conditions is empty;
  when every registered rule has at least one condition it returns the empty list,
  whatever the facts were before the clear. The function is total, so it never fails.\<close>

theorem evaluate_after_clear:
  "(facts kb = {} \<longrightarrow>
      fst (evaluate_rules kb)
        = map mk_result (filter (\<lambda>item. conditions (snd item) = []) (rules kb)))
   \<and> facts (clear_indicators kb) = {}
   \<and> rules (clear_indicators kb) = rules kb
   \<and> fst (evaluate_rules (clear_indicators kb))
       = map mk_result (filter (\<lambda>item. conditions (snd item) = []) (rules kb))
   \<and> ((\<forall>item \<in> set (rules kb). conditions (snd item) \<noteq> [])
        \<longrightarrow> (facts kb = {} \<longrightarrow> fst (evaluate_rules kb) = [])
          \<and> fst (evaluate_rules (clear_indicators kb)) = [])"
proof -
  have f: "fires s r \<longleftrightarrow> conditions r = []" if "facts s = {}" for s r
    using that by (simp add: fires_iff)
  have g: "fst (evaluate_rules s)
       = map mk_result (filter (\<lambda>item. conditions (snd item) = []) (rules s))"
    if "facts s = {}" for s
    by (simp add: evaluate_rules_eq f [OF that])
  have c: "facts (clear_indicators kb) = {}" "rules (clear_indicators kb) = rules kb"
    by (simp_all add: clear_indicators_def)
  have e: "fst (evaluate_rules (clear_indicators kb))
       = map mk_result (filter (\<lambda>item. conditions (snd item) = []) (rules kb))"
    using g [OF c(1)] by (simp add: c(2))
  have n: "(\<forall>item \<in> set (rules kb). conditions (snd item) \<noteq> [])
        \<longrightarrow> filter (\<lambda>item. conditions (snd item) = []) (rules kb) = []"
    by (simp add: filter_empty_conv)
  from g [of kb] c e n show ?thesis
    by simp
qed

theorem evaluate_after_clear_witness:
  "facts tooling_kb = {}
   \<and> fst (evaluate_rules tooling_kb) = []
   \<and> fst (evaluate_rules tooling_kb_observed) \<noteq> []
   \<and> fst (evaluate_rules (clear_indicators tooling_kb_observed)) = []"
proof -
  have r: "rules tooling_kb_observed = rules tooling_kb"
    by (simp add: tooling_kb_observed_def rules_add_fact)
  have h: "\<forall>item \<in> set (rules tooling_kb). conditions (snd item) \<noteq> []"
    by (simp add: kb_defs)
  have h': "\<forall>item \<in> set (rules tooling_kb_observed). conditions (snd item) \<noteq> []"
    using h by (simp add: r)
  have z: "facts tooling_kb = {}"
    by (simp add: kb_defs)
  have n: "fst (evaluate_rules tooling_kb_observed) \<noteq> []"
    by (simp add: kb_defs)
  from h h' z n evaluate_after_clear [of tooling_kb] evaluate_after_clear [of tooling_kb_observed]
  show ?thesis
    by blast
qed

text \<open>C5. \<open>add_fact\<close> stores the label as given, untrimmed and in its own case, and a
  blank label is both inserted and logged.\<close>

theorem add_fact_verbatim_counterexample:
  "facts (add_fact '' Tool Wear '' init) = {'' Tool Wear ''}
   \<and> facts (add_fact ''  '' init) \<noteq> facts init
   \<and> history (add_fact ''  '' init) = [''Added indicator:   '']"
  by (simp add: add_fact_def init_def)

text \<open>C5, as amended. The handler \<open>add_indicator\<close> normalizes its input with
  \<open>strip\<close> and \<open>lower\<close> before calling \<open>add_fact\<close>: when the input is empty or all
  whitespace (the whitespace of \<open>str.isspace\<close>) it returns the knowledge base unchanged (same facts, same history); otherwise
  it inserts the normalized label, which is not empty, begins and ends with a character
  that is not whitespace and has no upper-case letter, and logs one entry for it.
  \<open>add_fact\<close> itself inserts any label as given and always logs one entry.\<close>

theorem add_indicator_normalizes:
  "(list_all is_space plain_text \<longrightarrow> add_indicator plain_text kb = kb)
   \<and> (\<not> list_all is_space plain_text \<longrightarrow>
        add_indicator plain_text kb = add_fact (lower (strip plain_text)) kb
        \<and> facts (add_indicator plain_text kb) = insert (lower (strip plain_text)) (facts kb)
        \<and> history (add_indicator plain_text kb)
            = history kb @ [''Added indicator: '' @ lower (strip plain_text)]
        \<and> lower (strip plain_text) \<noteq> []
        \<and> \<not> is_space (hd (lower (strip plain_text)))
        \<and> \<not> is_space (last (lower (strip plain_text)))
        \<and> list_all (\<lambda>c. \<not> is_upper c) (lower (strip plain_text)))
   \<and> facts (add_fact label kb) = insert label (facts kb)
   \<and> history (add_fact label kb) = history kb @ [''Added indicator: '' @ label]"
proof (intro conjI impI)
  assume "list_all is_space plain_text"
  then have "lower (strip plain_text) = []"
    by (simp add: lower_Nil_iff strip_Nil_iff)
  then show "add_indicator plain_text kb = kb"
    by (simp add: add_indicator_def)
next
  assume "\<not> list_all is_space plain_text"
  then have s: "strip plain_text \<noteq> []"
    by (simp add: strip_Nil_iff)
  then show ne: "lower (strip plain_text) \<noteq> []"
    by (simp add: lower_Nil_iff)
  then show a: "add_indicator plain_text kb = add_fact (lower (strip plain_text)) kb"
    by (simp add: add_indicator_def)
  show "facts (add_indicator plain_text kb) = insert (lower (strip plain_text)) (facts kb)"
    unfolding a by (rule facts_add_fact)
  show "history (add_indicator plain_text kb)
            = history kb @ [''Added indicator: '' @ lower (strip plain_text)]"
    unfolding a by (rule history_add_fact)
  show "\<not> is_space (hd (lower (strip plain_text)))"
    using s strip_ends(1)[OF s] by (simp add: lower_def hd_map is_space_lower_char)
  show "\<not> is_space (last (lower (strip plain_text)))"
    using s strip_ends(2)[OF s] by (simp add: lower_def last_map is_space_lower_char)
  show "list_all (\<lambda>c. \<not> is_upper c) (lower (strip plain_text))"
    by (simp add: lower_def list_all_iff not_upper_lower_char)
next
  show "facts (add_fact label kb) = insert label (facts kb)"
    by (rule facts_add_fact)
  show "history (add_fact label kb) = history kb @ [''Added indicator: '' @ label]"
    by (rule history_add_fact)
qed

theorem add_indicator_normalizes_witness:
  "add_indicator '' '' tooling_kb = tooling_kb
   \<and> add_indicator [char_of (133 :: nat), char_of (160 :: nat)] tooling_kb = tooling_kb
   \<and> facts (add_indicator ''  Tool Wear '' init) = {''tool wear''}
   \<and> history (add_indicator ''  Tool Wear '' init) = [''Added indicator: tool wear'']
   \<and> facts (add_indicator [char_of (201 :: nat), CHR ''T'', char_of (160 :: nat)] init)
       = {[char_of (233 :: nat), CHR ''t'']}"
proof -
  have b: "list_all is_space '' ''"
    by (simp add: is_space_def)
  have b': "list_all is_space [char_of (133 :: nat), char_of (160 :: nat)]"
    by (simp add: is_space_def)
  have n: "\<not> list_all is_space ''  Tool Wear ''"
    by (simp add: is_space_def)
  have n': "\<not> list_all is_space [char_of (201 :: nat), CHR ''T'', char_of (160 :: nat)]"
    by (simp add: is_space_def)
  have l: "lower (strip ''  Tool Wear '') = ''tool wear''"
    by code_simp
  have l': "lower (strip [char_of (201 :: nat), CHR ''T'', char_of (160 :: nat)])
      = [char_of (233 :: nat), CHR ''t'']"
    by code_simp
  from b b' n n' add_indicator_normalizes [of "'' ''" tooling_kb]
    add_indicator_normalizes [of "[char_of (133 :: nat), char_of (160 :: nat)]" tooling_kb]
    add_indicator_normalizes [of "''  Tool Wear ''" init]
    add_indicator_normalizes
      [of "[char_of (201 :: nat), CHR ''T'', char_of (160 :: nat)]" init]
  show ?thesis
    by (simp add: l l' init_def)
qed

text \<open>C6. Calling \<open>add_fact x\<close> twice gives the fact set of calling it once, and the
  history grows by two entries, one per call. This holds for every label \<open>x\<close>.\<close>

theorem add_fact_twice:
  "facts (add_fact x (add_fact x kb)) = facts (add_fact x kb)
   \<and> history (add_fact x kb) = history kb @ [''Added indicator: '' @ x]
   \<and> history (add_fact x (add_fact x kb))
       = history kb @ [''Added indicator: '' @ x, ''Added indicator: '' @ x]
   \<and> length (history (add_fact x (add_fact x kb))) = length (history kb) + 2
   \<and> rules (add_fact x (add_fact x kb)) = rules kb"
  by (simp add: add_fact_def)

text \<open>C7. Firing is monotone in the fact set: over the same rules, when the facts of
  \<open>kb\<close> are among the facts of \<open>kb'\<close>, every rule that fires in \<open>kb\<close> fires in \<open>kb'\<close>,
  and every record returned by \<open>evaluate_rules\<close> on \<open>kb\<close> is returned on \<open>kb'\<close>.\<close>

theorem evaluate_rules_monotone:
  assumes "rules kb' = rules kb" and "facts kb \<subseteq> facts kb'"
  shows "(\<forall>item \<in> set (rules kb). fires kb (snd item) \<longrightarrow> fires kb' (snd item))
     \<and> set (fst (evaluate_rules kb)) \<subseteq> set (fst (evaluate_rules kb'))"
proof -
  have m: "fires kb r \<Longrightarrow> fires kb' r" for r
    using assms(2) by (auto simp: fires_iff)
  then show ?thesis
    using assms(1) by (auto simp: evaluate_rules_set)
qed

theorem evaluate_rules_monotone_witness:
  "facts (add_fact ''tool_wear'' (add_fact ''dimensional_variation'' tooling_kb))
      \<subseteq> facts tooling_kb_observed
   \<and> \<lparr>res_conclusion = ''possible_tooling_problem'', res_confidence = Fin 0.7, rule_id = 0\<rparr>
       \<in> set (fst (evaluate_rules tooling_kb_observed))"
proof -
  let ?kb = "add_fact ''tool_wear'' (add_fact ''dimensional_variation'' tooling_kb)"
  have r: "rules tooling_kb_observed = rules ?kb"
    by (simp add: tooling_kb_observed_def rules_add_fact)
  have f: "facts ?kb \<subseteq> facts tooling_kb_observed"
    by (auto simp: tooling_kb_observed_def facts_add_fact)
  have e: "\<lparr>res_conclusion = ''possible_tooling_problem'', res_confidence = Fin 0.7, rule_id = 0\<rparr>
       \<in> set (fst (evaluate_rules ?kb))"
    by (simp add: kb_defs)
  from evaluate_rules_monotone [OF r f] e f show ?thesis
    by blast
qed

text \<open>C8. \<open>evaluate_rules\<close> hands back the knowledge base it was given: the facts, the
  history and the rules are as before the call, and a second call returns what the first
  one did.\<close>

theorem evaluate_rules_pure:
  "snd (evaluate_rules kb) = kb
   \<and> facts (snd (evaluate_rules kb)) = facts kb
   \<and> history (snd (evaluate_rules kb)) = history kb
   \<and> rules (snd (evaluate_rules kb)) = rules kb
   \<and> evaluate_rules (snd (evaluate_rules kb)) = evaluate_rules kb"
  by (simp add: evaluate_rules_def evaluate_loop_state)

text \<open>C9. For a rule without conditions the graph has no node, although the union of
  the condition and conclusion labels holds the conclusion of that rule.\<close>

theorem rules_to_graph_nodes_counterexample:
  "nodes (rules_to_graph unconditional_kb empty_graph) = {}
   \<and> (\<Union>item \<in> set (rules unconditional_kb).
         set (conditions (snd item)) \<union> {conclusion (snd item)}) = {''always''}"
  by (simp add: rules_to_graph_def add_rule_to_graph_def empty_graph_def kb_defs)

text \<open>C9, as amended. The graph built from the registered rules has as edges the set
  of pairs (condition, conclusion) over all rules and their conditions, each pair once
  however many rules give it; its nodes are all condition labels together with the
  conclusion labels of the rules that have at least one condition. When every rule has a
  condition, the nodes are the union of all condition and conclusion labels.\<close>

theorem rules_to_graph_nodes_edges:
  "edges (rules_to_graph kb empty_graph)
     = (\<Union>item \<in> set (rules kb).
          (\<lambda>c. (c, conclusion (snd item))) ` set (conditions (snd item)))
   \<and> nodes (rules_to_graph kb empty_graph)
     = (\<Union>item \<in> set (rules kb). set (conditions (snd item)) \<union>
          (if conditions (snd item) = [] then {} else {conclusion (snd item)}))
   \<and> ((\<forall>item \<in> set (rules kb). conditions (snd item) \<noteq> []) \<longrightarrow>
        nodes (rules_to_graph kb empty_graph)
          = (\<Union>item \<in> set (rules kb).
               set (conditions (snd item)) \<union> {conclusion (snd item)}))"
  by (simp add: rules_to_graph_def fold_graph_edges fold_graph_nodes empty_graph_def)

theorem rules_to_graph_nodes_edges_witness:
  "nodes (rules_to_graph tooling_kb empty_graph)
     = {''dimensional_variation'', ''tool_wear'', ''vibration'',
        ''possible_tooling_problem'', ''severe_tooling_issue''}
   \<and> edges (rules_to_graph tooling_kb empty_graph)
     = {(''dimensional_variation'', ''possible_tooling_problem''),
        (''tool_wear'', ''possible_tooling_problem''),
        (''dimensional_variation'', ''severe_tooling_issue''),
        (''tool_wear'', ''severe_tooling_issue''),
        (''vibration'', ''severe_tooling_issue'')}"
proof -
  have r: "rules tooling_kb =
    [(0, \<lparr>conditions = [''dimensional_variation'', ''tool_wear''],
          conclusion = ''possible_tooling_problem'', confidence = Fin 0.7\<rparr>),
     (1, \<lparr>conditions = [''dimensional_variation'', ''tool_wear'', ''vibration''],
          conclusion = ''severe_tooling_issue'', confidence = Fin 0.9\<rparr>)]"
    by (simp add: kb_defs)
  have h: "\<forall>item \<in> set (rules tooling_kb). conditions (snd item) \<noteq> []"
    by (simp add: r)
  from h rules_to_graph_nodes_edges [of tooling_kb] show ?thesis
    unfolding r by auto
qed

text \<open>C10. \<open>add_rule\<close> with an empty list of conditions stores the rule under the next
  id; such a rule fires in every knowledge base, and whatever the fact set \<open>F\<close> is
  afterwards, the empty one included, \<open>evaluate_rules\<close> returns its record.\<close>

theorem empty_conditions_always_fire:
  "(length (rules kb), \<lparr>conditions = [], conclusion = concl, confidence = conf\<rparr>)
      \<in> set (rules (add_rule [] concl conf kb))
   \<and> fires (kb'\<lparr>facts := F\<rparr>) \<lparr>conditions = [], conclusion = concl, confidence = conf\<rparr>
   \<and> \<lparr>res_conclusion = concl, res_confidence = conf, rule_id = length (rules kb)\<rparr>
      \<in> set (fst (evaluate_rules ((add_rule [] concl conf kb)\<lparr>facts := F\<rparr>)))"
proof -
  let ?r = "\<lparr>conditions = [], conclusion = concl, confidence = conf\<rparr>"
  have m: "(length (rules kb), ?r) \<in> set (rules (add_rule [] concl conf kb))"
    by (simp add: add_rule_def update_member)
  have f: "fires s ?r" for s
    by (simp add: fires_def)
  have "mk_result (length (rules kb), ?r)
      \<in> set (fst (evaluate_rules ((add_rule [] concl conf kb)\<lparr>facts := F\<rparr>)))"
    unfolding evaluate_rules_set using m f by force
  then show ?thesis
    using m f by (simp add: mk_result_def)
qed

end
